theory Spec2Isabelle
  imports Main "HOL-Library.AList" "HOL-Library.Word"
begin

section \<open>Data model\<close>

text \<open>
  The development embeds \<^verbatim>\<open>core/stage.go\<close> (\<^verbatim>\<open>Create\<close>, \<^verbatim>\<open>Destroy\<close>,
  \<^verbatim>\<open>shellVars\<close>, \<^verbatim>\<open>shellJobs\<close>, \<^verbatim>\<open>checkRequires\<close>, \<^verbatim>\<open>cpVals\<close>, \<^verbatim>\<open>Generate\<close>)
  and the helm value helpers (\<^verbatim>\<open>LoadVals\<close>, \<^verbatim>\<open>LoadFile\<close>, \<^verbatim>\<open>MergeVals\<close>).

  A Go \<^verbatim>\<open>error\<close> is modelled by its message, a nilable \<^verbatim>\<open>error\<close> by \<open>error option\<close>,
  and a nilable \<^verbatim>\<open>[]byte\<close> by \<open>string option\<close> (\<open>None\<close> is the nil slice).
\<close>

type_synonym error = string
type_synonym bytes = "string option"

text \<open>\<^verbatim>\<open>type Jobs struct { Before, After []string }\<close> (declared identically in both packages).\<close>

record Jobs =
  Before :: "string list"
  After :: "string list"

text \<open>
  \<^verbatim>\<open>helm.Chart\<close>. The fields that \<^verbatim>\<open>Stage\<close> declares again are prefixed here, since Go
  resolves \<^verbatim>\<open>stage.Abandon\<close>, \<^verbatim>\<open>stage.Values\<close>, ... to the fields of \<^verbatim>\<open>Stage\<close> itself.
\<close>

record Chart =
  Name :: string
  Repo :: string
  Version :: string
  Release :: string
  Timeout :: "64 word"
  Namespace :: string
  Chart_Abandon :: bool
  Chart_Values :: string
  Chart_Requires :: "string list"
  Chart_Depends :: "string list"
  Chart_Jobs :: Jobs
  Chart_Templates :: "string list"

text \<open>\<^verbatim>\<open>core.Stage\<close>; the embedded \<^verbatim>\<open>helm.Chart\<close> is the field \<open>chart\<close>.\<close>

record Stage =
  chart :: Chart
  Abandon :: bool
  Values :: string
  Requires :: "string list"
  Depends :: "string list"
  Jobs :: Jobs
  Templates :: "string list"

subsection \<open>Go maps as references into a store\<close>

text \<open>
  A \<^verbatim>\<open>map[string]string\<close> value is a reference: \<^verbatim>\<open>MergeVals\<close> and \<^verbatim>\<open>cpVals\<close> are only
  understood through what they mutate and what they allocate. A map value is therefore
  \<open>None\<close> (the nil map) or \<open>Some r\<close>, an index into the store of allocated maps. The content
  of an allocated map is its list of entries, one per key, in the order in which a
  \<^verbatim>\<open>range\<close> over it visits them; Go leaves that order open, and so does every theorem
  below, which holds for each entry list.
\<close>

type_synonym entries = "(string \<times> string) list"
type_synonym mapval = "nat option"
type_synonym store = "entries list"

text \<open>The entries a \<^verbatim>\<open>range\<close> over a map value visits; ranging over nil visits nothing.\<close>

definition entries_of :: "store \<Rightarrow> mapval \<Rightarrow> entries" where
  "entries_of h m = (case m of None \<Rightarrow> [] | Some r \<Rightarrow> h ! r)"

text \<open>\<^verbatim>\<open>v, exists := m[k]\<close>; reading from the nil map finds nothing.\<close>

definition lookup :: "store \<Rightarrow> mapval \<Rightarrow> string \<Rightarrow> string option" where
  "lookup h m k = map_of (entries_of h m) k"

text \<open>\<^verbatim>\<open>make(map[string]string)\<close> followed by one assignment per listed entry (a map literal).\<close>

definition new_map :: "entries \<Rightarrow> store \<Rightarrow> mapval \<times> store" where
  "new_map es h = (Some (length h), h @ [fold (\<lambda>(k, v). AList.update k v) es []])"

text \<open>\<^verbatim>\<open>m[key] = value\<close>: a runtime panic on the nil map (\<open>None\<close>), an in-place update otherwise.\<close>

definition assign :: "mapval \<Rightarrow> string \<Rightarrow> string \<Rightarrow> store \<Rightarrow> store option" where
  "assign m k v h =
     (case m of None \<Rightarrow> None | Some r \<Rightarrow> Some (h[r := AList.update k v (h ! r)]))"

text \<open>A map value is well formed in a store when it is nil or allocated there.\<close>

definition allocated :: "store \<Rightarrow> mapval \<Rightarrow> bool" where
  "allocated h m = (case m of None \<Rightarrow> True | Some r \<Rightarrow> r < length h)"

section \<open>helm: MergeVals\<close>

text \<open>
  \<^verbatim>\<open>for key, value := range next { prev[key] = value }\<close>. The entries of \<open>next\<close> are read
  when the loop starts; when \<open>prev\<close> and \<open>next\<close> are the same map the loop only rewrites
  existing keys, so no entry appears during the iteration.
\<close>

fun MergeVals_loop :: "mapval \<Rightarrow> entries \<Rightarrow> store \<Rightarrow> store option" where
  "MergeVals_loop prev [] h = Some h"
| "MergeVals_loop prev ((key, val) # rest) h =
     (case assign prev key val h of
        None \<Rightarrow> None
      | Some h' \<Rightarrow> MergeVals_loop prev rest h')"

definition MergeVals :: "mapval \<Rightarrow> mapval \<Rightarrow> store \<Rightarrow> store option" where
  "MergeVals prev next h = MergeVals_loop prev (entries_of h next) h"

section \<open>core: shellVars, checkRequires, cpVals\<close>

text \<open>
  \<^verbatim>\<open>envs := make([]string, len(vals))\<close> creates \<open>len(vals)\<close> empty strings, not an empty
  slice of that capacity; the loop then appends one \<^verbatim>\<open>key=value\<close> string per entry.
\<close>

definition shellVars :: "entries \<Rightarrow> string list" where
  "shellVars vals =
     fold (\<lambda>(key, val) envs. envs @ [key @ ''='' @ val]) vals (replicate (length vals) '''')"

text \<open>\<^verbatim>\<open>checkRequires\<close>: the first requirement missing from the map is an error.\<close>

fun checkRequires :: "store \<Rightarrow> mapval \<Rightarrow> string list \<Rightarrow> error option" where
  "checkRequires h vals [] = None"
| "checkRequires h vals (r # reqs) =
     (if lookup h vals r = None then Some ''requirement not met''
      else checkRequires h vals reqs)"

text \<open>\<^verbatim>\<open>cpVals\<close>: a new map, filled entry by entry from \<open>prev\<close>.\<close>

definition cpVals :: "mapval \<Rightarrow> store \<Rightarrow> mapval \<times> store" where
  "cpVals prev h =
     (let vals = Some (length h);
          h1 = h @ [[]]
      in (vals, fold (\<lambda>(k, v) h'. h'[length h := AList.update k v (h' ! length h)])
                     (entries_of h prev) h1))"

section \<open>The collaborators and the state of one stage task\<close>

text \<open>
  How control leaves a Go function other than by \<^verbatim>\<open>return\<close>: a panic, which unwinds
  through the deferred calls; \<^verbatim>\<open>log.Fatalf\<close>, which ends the process with
  \<^verbatim>\<open>os.Exit(1)\<close> and runs no deferred call; or a \<^verbatim>\<open>Wait\<close> that never returns.
\<close>

datatype exit = Panic | Fatal | Blocked

datatype 'a outcome = Return 'a | Abort exit

text \<open>The calls a stage task makes on its collaborators, in the order it makes them.\<close>

datatype event =
    EvReleaseStatus string
  | EvDeleteRelease string
  | EvInstallChart Chart bytes
  | EvUpgradeChart Chart bytes
  | EvWait "string list"
  | EvComplete "string list"
  | EvReadFile string
  | EvExecute string
  | EvCommand "string list" "string list"

text \<open>
  The code outside this repository's sources that \<^verbatim>\<open>stage.go\<close> calls, taken as
  parameters over an arbitrary state \<open>'w\<close> of the outside world: the release backend
  (\<^verbatim>\<open>helm.Bridge\<close>), the dependency graph (\<^verbatim>\<open>Depends\<close>), the file system, YAML decoding,
  the template engine, \<^verbatim>\<open>strings.Fields\<close>, the process environment and the execution of
  a command (\<^verbatim>\<open>cmd.Output()\<close>, given the argument vector and \<^verbatim>\<open>cmd.Env\<close>).
  \<open>Wait\<close> yields \<open>None\<close> when it blocks forever. \<open>Unmarshal\<close> yields the decoded pairs in
  document order. Console output (\<^verbatim>\<open>log.Printf\<close>, \<^verbatim>\<open>fmt.Println\<close>) is not recorded.
\<close>

record 'w env =
  ReleaseStatus :: "string \<Rightarrow> 'w \<Rightarrow> (string \<times> error option) \<times> 'w"
  DeleteRelease :: "string \<Rightarrow> 'w \<Rightarrow> error option \<times> 'w"
  InstallChart :: "Chart \<Rightarrow> bytes \<Rightarrow> 'w \<Rightarrow> error option \<times> 'w"
  UpgradeChart :: "Chart \<Rightarrow> bytes \<Rightarrow> 'w \<Rightarrow> error option \<times> 'w"
  Wait :: "string list \<Rightarrow> 'w \<Rightarrow> 'w option"
  Complete :: "string list \<Rightarrow> 'w \<Rightarrow> 'w"
  ReadFile :: "string \<Rightarrow> 'w \<Rightarrow> (bytes \<times> error option) \<times> 'w"
  Unmarshal :: "string \<Rightarrow> error + entries"
  Parse :: "string \<Rightarrow> string \<Rightarrow> error option"
  Execute :: "string \<Rightarrow> string \<Rightarrow> entries \<Rightarrow> 'w \<Rightarrow> (string \<times> error option) \<times> 'w"
  Fields :: "string \<Rightarrow> string list"
  Environ :: "'w \<Rightarrow> string list"
  Output :: "string list \<Rightarrow> string list \<Rightarrow> 'w \<Rightarrow> (bytes \<times> error option) \<times> 'w"

text \<open>The state a task threads: the outside world, the store of Go maps, the calls made.\<close>

record 'w state =
  world :: 'w
  maps :: store
  trace :: "event list"

definition call :: "event \<Rightarrow> ('w \<Rightarrow> 'a \<times> 'w) \<Rightarrow> 'w state \<Rightarrow> 'a \<times> 'w state" where
  "call ev f s =
     (case f (world s) of (res, w) \<Rightarrow> (res, s\<lparr>world := w, trace := trace s @ [ev]\<rparr>))"

definition and_then ::
  "'a outcome \<times> 's \<Rightarrow> ('a \<Rightarrow> 's \<Rightarrow> 'b outcome \<times> 's) \<Rightarrow> 'b outcome \<times> 's" where
  "and_then m f = (case m of (Return v, s) \<Rightarrow> f v s | (Abort a, s) \<Rightarrow> (Abort a, s))"

text \<open>
  \<^verbatim>\<open>defer cleanup(); body\<close>: the deferred call runs when the body returns or panics, and
  not when the process exits or the task never leaves the body. A deferred call that
  returns leaves the body's outcome as it is (no \<^verbatim>\<open>recover\<close> is used, and its result is
  dropped); one that panics makes the function panic.
\<close>

definition runs_deferred :: "'a outcome \<Rightarrow> bool" where
  "runs_deferred r = (case r of Return _ \<Rightarrow> True | Abort a \<Rightarrow> a = Panic)"

definition deferred ::
  "('s \<Rightarrow> 'c outcome \<times> 's) \<Rightarrow> ('s \<Rightarrow> 'a outcome \<times> 's) \<Rightarrow> 's \<Rightarrow> 'a outcome \<times> 's" where
  "deferred cleanup body s =
     (case body s of (r, s1) \<Rightarrow>
        if runs_deferred r
        then (case cleanup s1 of
                (Return _, s2) \<Rightarrow> (r, s2)
              | (Abort a, s2) \<Rightarrow> (Abort a, s2))
        else (r, s1))"

definition do_Wait :: "'w env \<Rightarrow> string list \<Rightarrow> 'w state \<Rightarrow> unit outcome \<times> 'w state" where
  "do_Wait env keys s =
     (case Wait env keys (world s) of
        None \<Rightarrow> (Abort Blocked, s\<lparr>trace := trace s @ [EvWait keys]\<rparr>)
      | Some w \<Rightarrow> (Return (), s\<lparr>world := w, trace := trace s @ [EvWait keys]\<rparr>))"

definition do_Complete :: "'w env \<Rightarrow> string list \<Rightarrow> 'w state \<Rightarrow> unit outcome \<times> 'w state" where
  "do_Complete env keys s =
     (Return (), s\<lparr>world := Complete env keys (world s), trace := trace s @ [EvComplete keys]\<rparr>)"

text \<open>Operations on the store, lifted to the task state.\<close>

definition on_maps :: "(store \<Rightarrow> 'a \<times> store) \<Rightarrow> 'w state \<Rightarrow> 'a \<times> 'w state" where
  "on_maps f s = (case f (maps s) of (x, h) \<Rightarrow> (x, s\<lparr>maps := h\<rparr>))"

definition do_MergeVals :: "mapval \<Rightarrow> mapval \<Rightarrow> 'w state \<Rightarrow> unit outcome \<times> 'w state" where
  "do_MergeVals prev next s =
     (case MergeVals prev next (maps s) of
        None \<Rightarrow> (Abort Panic, s)
      | Some h \<Rightarrow> (Return (), s\<lparr>maps := h\<rparr>))"

section \<open>helm: LoadFile, LoadVals\<close>

definition LoadFile :: "'w env \<Rightarrow> string \<Rightarrow> 'w state \<Rightarrow> bytes \<times> 'w state" where
  "LoadFile env vals s =
     (if vals = '''' then (None, s)
      else case call (EvReadFile vals) (ReadFile env vals) s of
             ((data, err), s1) \<Rightarrow> if err \<noteq> None then (None, s1) else (data, s1))"

text \<open>
  \<^verbatim>\<open>LoadVals\<close>: nil for the empty path and for undecodable data, a new map otherwise.
  On a decoding error the map made for the decoder is dropped, so its content is left out.
\<close>

definition LoadVals :: "'w env \<Rightarrow> string \<Rightarrow> bytes \<Rightarrow> 'w state \<Rightarrow> mapval \<times> 'w state" where
  "LoadVals env vals data s =
     (if vals = '''' then (None, s)
      else case (if data = None then LoadFile env vals s else (data, s)) of
             (data1, s1) \<Rightarrow>
               (case Unmarshal env (case data1 of None \<Rightarrow> '''' | Some d \<Rightarrow> d) of
                  Inl err \<Rightarrow> (None, snd (on_maps (new_map []) s1))
                | Inr es \<Rightarrow> on_maps (new_map es) s1))"

section \<open>core: shellJobs, Generate\<close>

text \<open>
  \<^verbatim>\<open>shellJobs\<close>: \<^verbatim>\<open>args[0]\<close> panics on a command without fields; the first command that
  fails ends the loop with its error.
\<close>

fun shellJobs ::
  "'w env \<Rightarrow> string list \<Rightarrow> string list \<Rightarrow> bool \<Rightarrow> 'w state \<Rightarrow> error option outcome \<times> 'w state"
where
  "shellJobs env vals [] verbose s = (Return None, s)"
| "shellJobs env vals (command # jobs) verbose s =
     (case Fields env command of
        [] \<Rightarrow> (Abort Panic, s)
      | arg0 # args \<Rightarrow>
          (case call (EvCommand (arg0 # args) (vals @ Environ env (world s)))
                     (Output env (arg0 # args) (vals @ Environ env (world s))) s of
             ((stdout, err), s1) \<Rightarrow>
               (case err of
                  Some e \<Rightarrow> (Return (Some e), s1)
                | None \<Rightarrow> shellJobs env vals jobs verbose s1)))"

text \<open>\<^verbatim>\<open>append(*out, buf.Bytes()...)\<close>: appending nothing to the nil slice leaves it nil.\<close>

definition append_bytes :: "bytes \<Rightarrow> string \<Rightarrow> bytes" where
  "append_bytes out buf =
     (case out of None \<Rightarrow> (if buf = [] then None else Some buf) | Some b \<Rightarrow> Some (b @ buf))"

text \<open>
  \<^verbatim>\<open>Generate\<close>: a template that does not parse or does not execute ends the process
  (\<^verbatim>\<open>log.Fatalf\<close>); otherwise the rendered text is appended to \<^verbatim>\<open>*out\<close>, returned here.
  The cluster client built by \<^verbatim>\<open>kube.NewK8s()\<close> is part of what \<open>Execute\<close> stands for.
\<close>

definition Generate ::
  "'w env \<Rightarrow> string \<Rightarrow> bytes \<Rightarrow> bytes \<Rightarrow> mapval \<Rightarrow> 'w state \<Rightarrow> bytes outcome \<times> 'w state" where
  "Generate env name data out vals s =
     (let text = (case data of None \<Rightarrow> '''' | Some d \<Rightarrow> d) in
      case Parse env name text of
        Some e \<Rightarrow> (Abort Fatal, s)
      | None \<Rightarrow>
          (case call (EvExecute name) (Execute env name text (entries_of (maps s) vals)) s of
             ((buf, err), s1) \<Rightarrow>
               (case err of
                  Some e \<Rightarrow> (Abort Fatal, s1)
                | None \<Rightarrow> (Return (append_bytes out buf), s1))))"

section \<open>core: Destroy and Create\<close>

text \<open>\<^verbatim>\<open>Destroy\<close>, with \<^verbatim>\<open>deps.Complete(stage.Depends...)\<close> deferred on entry.\<close>

definition Destroy_body ::
  "'w env \<Rightarrow> Stage \<Rightarrow> string \<Rightarrow> mapval \<Rightarrow> bool \<Rightarrow> 'w state \<Rightarrow> error option outcome \<times> 'w state"
where
  "Destroy_body env stage key vals verbose s =
     (case checkRequires (maps s) vals (Requires stage) of
        Some err \<Rightarrow> (Return (Some err), s)
      | None \<Rightarrow>
          and_then (do_Wait env [key] s) (\<lambda>_ s1.
            case call (EvDeleteRelease (Release (chart stage)))
                      (DeleteRelease env (Release (chart stage))) s1 of
              (err, s2) \<Rightarrow> (Return err, s2)))"

definition Destroy ::
  "'w env \<Rightarrow> Stage \<Rightarrow> string \<Rightarrow> mapval \<Rightarrow> bool \<Rightarrow> 'w state \<Rightarrow> error option outcome \<times> 'w state"
where
  "Destroy env stage key vals verbose s =
     deferred (do_Complete env (Depends stage)) (Destroy_body env stage key vals verbose) s"

text \<open>
  Lines 143 to 146 of \<^verbatim>\<open>Create\<close>: the copy of \<open>main\<close>, then the stage's value file, the
  namespace and the release name merged into the copy, each from a map of its own.
\<close>

definition resolve_values ::
  "'w env \<Rightarrow> Stage \<Rightarrow> mapval \<Rightarrow> 'w state \<Rightarrow> mapval outcome \<times> 'w state" where
  "resolve_values env stage main s =
     (case on_maps (cpVals main) s of (vals, s1) \<Rightarrow>
     (case LoadVals env (Values stage) None s1 of (loaded, s2) \<Rightarrow>
        and_then (do_MergeVals vals loaded s2) (\<lambda>_ s3.
     (case on_maps (new_map [(''namespace'', Namespace (chart stage))]) s3 of (ns, s4) \<Rightarrow>
        and_then (do_MergeVals vals ns s4) (\<lambda>_ s5.
     (case on_maps (new_map [(''release'', Release (chart stage))]) s5 of (rel, s6) \<Rightarrow>
        and_then (do_MergeVals vals rel s6) (\<lambda>_ s7. (Return vals, s7))))))))"

text \<open>Lines 158 to 165: each template is read (a failed read panics) and rendered.\<close>

fun render ::
  "'w env \<Rightarrow> string list \<Rightarrow> mapval \<Rightarrow> bytes \<Rightarrow> 'w state \<Rightarrow> bytes outcome \<times> 'w state" where
  "render env [] vals out s = (Return out, s)"
| "render env (temp # temps) vals out s =
     (case call (EvReadFile temp) (ReadFile env temp) s of
        ((data, read), s1) \<Rightarrow>
          if read \<noteq> None then (Abort Panic, s1)
          else (case Generate env temp data out vals s1 of
                  (Return out1, s2) \<Rightarrow> render env temps vals out1 s2
                | (Abort a, s2) \<Rightarrow> (Abort a, s2)))"

text \<open>
  Lines 171 to 192: the release status is queried again. The result of \<^verbatim>\<open>DeleteRelease\<close>
  and the result of \<^verbatim>\<open>UpgradeChart\<close> are dropped; the test after the upgrade reads
  \<^verbatim>\<open>err\<close>, the error of the status query.
\<close>

definition release_chart ::
  "'w env \<Rightarrow> Stage \<Rightarrow> bytes \<Rightarrow> 'w state \<Rightarrow> error option outcome \<times> 'w state" where
  "release_chart env stage out s =
     (case call (EvReleaseStatus (Release (chart stage)))
                (ReleaseStatus env (Release (chart stage))) s of
        ((status, err), s1) \<Rightarrow>
          if status = ''PENDING_INSTALL'' \<or> err \<noteq> None
          then (let s2 = (if err = None
                          then snd (call (EvDeleteRelease (Release (chart stage)))
                                         (DeleteRelease env (Release (chart stage))) s1)
                          else s1)
                in case call (EvInstallChart (chart stage) out)
                             (InstallChart env (chart stage) out) s2 of
                     (err1, s3) \<Rightarrow>
                       if err1 \<noteq> None then (Abort Fatal, s3) else (Return None, s3))
          else (case call (EvUpgradeChart (chart stage) out)
                          (UpgradeChart env (chart stage) out) s1 of
                  (dropped, s2) \<Rightarrow>
                    if err \<noteq> None then (Abort Fatal, s2) else (Return None, s2)))"

text \<open>Lines 158 to 192, which run with the after-hooks deferred.\<close>

definition Create_tail ::
  "'w env \<Rightarrow> Stage \<Rightarrow> mapval \<Rightarrow> bool \<Rightarrow> 'w state \<Rightarrow> error option outcome \<times> 'w state" where
  "Create_tail env stage vals verbose s =
     and_then (render env (Templates stage) vals None s) (release_chart env stage)"

text \<open>
  Lines 138 to 192. The result of the before-hooks is dropped (only a panic leaves the
  function there); the arguments of the deferred after-hooks are evaluated at the
  \<^verbatim>\<open>defer\<close> statement.
\<close>

definition Create_body ::
  "'w env \<Rightarrow> Stage \<Rightarrow> mapval \<Rightarrow> bool \<Rightarrow> 'w state \<Rightarrow> error option outcome \<times> 'w state" where
  "Create_body env stage main verbose s =
     (case call (EvReleaseStatus (Release (chart stage)))
                (ReleaseStatus env (Release (chart stage))) s of
        ((status, err), s1) \<Rightarrow>
          if err = None \<and> Abandon stage then (Return (Some ''chart already installed''), s1)
          else
            and_then (resolve_values env stage main s1) (\<lambda>vals s2.
              case checkRequires (maps s2) vals (Requires stage) of
                Some e \<Rightarrow> (Return (Some e), s2)
              | None \<Rightarrow>
                  and_then (do_Wait env (Depends stage) s2) (\<lambda>_ s3.
                    and_then (shellJobs env (shellVars (entries_of (maps s3) vals))
                                        (Before (Jobs stage)) verbose s3) (\<lambda>dropped s4.
                      deferred (shellJobs env (shellVars (entries_of (maps s4) vals))
                                          (After (Jobs stage)) verbose)
                               (Create_tail env stage vals verbose) s4))))"

text \<open>\<^verbatim>\<open>Create\<close>, with \<^verbatim>\<open>deps.Complete(key)\<close> deferred on entry.\<close>

definition Create ::
  "'w env \<Rightarrow> Stage \<Rightarrow> string \<Rightarrow> mapval \<Rightarrow> bool \<Rightarrow> 'w state \<Rightarrow> error option outcome \<times> 'w state"
where
  "Create env stage key main verbose s =
     deferred (do_Complete env [key]) (Create_body env stage main verbose) s"

section \<open>Observations on a run\<close>

text \<open>The calls made between two states of a task.\<close>

definition events_since :: "'w state \<Rightarrow> 'w state \<Rightarrow> event list" where
  "events_since s s' = drop (length (trace s)) (trace s')"

text \<open>A store is well formed when every allocated map holds each key once.\<close>

definition wf_store :: "store \<Rightarrow> bool" where
  "wf_store h = list_all (\<lambda>es. distinct (map fst es)) h"

text \<open>
  The effective values of a stage: the content of the map that lines 143 to 146 of
  \<^verbatim>\<open>Create\<close> build, started in state \<open>s\<close>.
\<close>

definition effective_values ::
  "'w env \<Rightarrow> Stage \<Rightarrow> mapval \<Rightarrow> 'w state \<Rightarrow> string \<Rightarrow> string option" where
  "effective_values env stage main s =
     (case resolve_values env stage main s of
        (Return vals, s') \<Rightarrow> lookup (maps s') vals
      | (Abort a, s') \<Rightarrow> Map.empty)"

text \<open>Every call other than \<^verbatim>\<open>Complete\<close>.\<close>

definition body_event :: "event \<Rightarrow> bool" where
  "body_event e = (case e of EvComplete ks \<Rightarrow> False | _ \<Rightarrow> True)"

text \<open>
  Two relations between a state and a later one, used to follow a run: \<open>steps\<close> when only
  calls satisfying \<open>P\<close> were made and the store is the same, \<open>grows\<close> when only such calls
  were made and the first \<open>n\<close> maps of the store are the same.
\<close>

definition steps :: "(event \<Rightarrow> bool) \<Rightarrow> 'w state \<Rightarrow> 'w state \<Rightarrow> bool" where
  "steps P s s' = (maps s' = maps s \<and> (\<exists>evs. trace s' = trace s @ evs \<and> list_all P evs))"

definition grows :: "(event \<Rightarrow> bool) \<Rightarrow> nat \<Rightarrow> 'w state \<Rightarrow> 'w state \<Rightarrow> bool" where
  "grows P n s s' =
     (take n (maps s') = take n (maps s) \<and> length (maps s) \<le> length (maps s')
      \<and> (\<exists>evs. trace s' = trace s @ evs \<and> list_all P evs))"

section \<open>A test double of the collaborators\<close>

text \<open>
  The world of the test double is the list of releases with their status. Every file
  reads as one line of manifest, every template renders to its own text, every command
  succeeds, and no wait blocks.
\<close>

definition test_env :: "entries env" where
  "test_env =
     \<lparr>ReleaseStatus = (\<lambda>rel w. case map_of w rel of
                                  None \<Rightarrow> (('''', Some ''release not found''), w)
                                | Some st \<Rightarrow> ((st, None), w)),
      DeleteRelease = (\<lambda>rel w. (None, filter (\<lambda>(r, st). r \<noteq> rel) w)),
      InstallChart = (\<lambda>c out w. (None, (Release c, ''DEPLOYED'') # w)),
      UpgradeChart = (\<lambda>c out w. (None, w)),
      Wait = (\<lambda>keys w. Some w),
      Complete = (\<lambda>keys w. w),
      ReadFile = (\<lambda>path w. ((Some ''kind: Pod'', None), w)),
      Unmarshal = (\<lambda>data. Inr []),
      Parse = (\<lambda>name text. None),
      Execute = (\<lambda>name text vals w. ((text, None), w)),
      Fields = (\<lambda>command. if command = [] then [] else [command]),
      Environ = (\<lambda>w. [''HOME=/root'']),
      Output = (\<lambda>args cenv w. ((Some [], None), w))\<rparr>"

definition test_chart :: Chart where
  "test_chart =
     \<lparr>Name = ''api'', Repo = ''stable'', Version = ''1.0'', Release = ''api'', Timeout = 300,
      Namespace = ''default'', Chart_Abandon = False, Chart_Values = '''',
      Chart_Requires = [], Chart_Depends = [], Chart_Jobs = \<lparr>Before = [], After = []\<rparr>,
      Chart_Templates = []\<rparr>"

definition test_stage :: Stage where
  "test_stage =
     \<lparr>chart = test_chart, Abandon = False, Values = '''', Requires = [], Depends = [''db''],
      Jobs = \<lparr>Before = [''migrate''], After = [''notify'']\<rparr>, Templates = [''api.yaml'']\<rparr>"

text \<open>The base values \<^verbatim>\<open>{env: prod}\<close> are map 0 of the store.\<close>

definition test_state :: "entries \<Rightarrow> entries state" where
  "test_state releases = \<lparr>world = releases, maps = [[(''env'', ''prod'')]], trace = []\<rparr>"

text \<open>Three variants: a template that does not render, a failing before-hook, a failing upgrade.\<close>

definition env_render_fails :: "entries env" where
  "env_render_fails = test_env\<lparr>Execute := (\<lambda>name text vals w. (([], Some ''render error''), w))\<rparr>"

definition env_hook_fails :: "entries env" where
  "env_hook_fails =
     test_env\<lparr>Output := (\<lambda>args cenv w. if args = [''migrate'']
                                         then ((None, Some ''exit status 1''), w)
                                         else ((Some [], None), w))\<rparr>"

definition env_upgrade_fails :: "entries env" where
  "env_upgrade_fails = test_env\<lparr>UpgradeChart := (\<lambda>c out w. (Some ''upgrade failed'', w))\<rparr>"

text \<open>Two more variants: a delete that fails, a wait that never returns.\<close>

definition env_delete_fails :: "entries env" where
  "env_delete_fails = test_env\<lparr>DeleteRelease := (\<lambda>rel w. (Some ''delete failed'', w))\<rparr>"

definition env_wait_blocks :: "entries env" where
  "env_wait_blocks = test_env\<lparr>Wait := (\<lambda>keys w. None)\<rparr>"

section \<open>Helper lemmas on the store\<close>

lemma fold_update_distinct:
  "distinct (map fst acc) \<Longrightarrow> distinct (map fst (fold (\<lambda>(k, v). AList.update k v) es acc))"
  by (induction es arbitrary: acc) (auto simp: distinct_update)

lemma fold_update_map_of:
  "map_of (fold (\<lambda>(k, v). AList.update k v) es acc) = map_of acc ++ map_of (rev es)"
proof (induction es arbitrary: acc)
  case Nil
  then show ?case by simp
next
  case (Cons e es)
  obtain k v where e: "e = (k, v)" by (cases e)
  have "map_of (fold (\<lambda>(k, v). AList.update k v) (e # es) acc)
        = map_of (AList.update k v acc) ++ map_of (rev es)"
    using Cons.IH [of "AList.update k v acc"] by (simp add: e)
  also have "\<dots> = map_of acc ++ map_of (rev (e # es))"
    by (simp add: e update_conv' map_add_def fun_eq_iff split: option.splits)
  finally show ?case .
qed

lemma map_of_rev_distinct:
  "distinct (map fst es) \<Longrightarrow> map_of (rev es) = map_of es"
  by (rule map_of_inject_set [THEN iffD2]) (simp_all add: rev_map [symmetric])

lemma MergeVals_loop_Some:
  "MergeVals_loop (Some p) es h =
     Some (h[p := fold (\<lambda>(k, v). AList.update k v) es (h ! p)])"
proof (induction es arbitrary: h)
  case Nil
  then show ?case by simp
next
  case (Cons e es)
  obtain k v where e: "e = (k, v)" by (cases e)
  show ?case
  proof (cases "p < length h")
    case True
    then show ?thesis by (simp add: e assign_def Cons.IH)
  next
    case False
    then show ?thesis by (simp add: e assign_def Cons.IH list_update_beyond)
  qed
qed

lemma shellVars_eq:
  "shellVars vals = replicate (length vals) '''' @ map (\<lambda>(key, val). key @ ''='' @ val) vals"
proof -
  have "fold (\<lambda>(key, val) envs. envs @ [key @ ''='' @ val]) vals acc
        = acc @ map (\<lambda>(key, val). key @ ''='' @ val) vals" for acc
    by (induction vals arbitrary: acc) auto
  then show ?thesis by (simp add: shellVars_def)
qed

lemma MergeVals_Some_eq:
  "MergeVals (Some p) next h =
     Some (h[p := fold (\<lambda>(k, v). AList.update k v) (entries_of h next) (h ! p)])"
  by (simp add: MergeVals_def MergeVals_loop_Some)

section \<open>Helper lemmas on traces and on the store of a run\<close>

lemma steps_refl: "steps P s s"
  by (simp add: steps_def)

lemma steps_trans: "steps P s s1 \<Longrightarrow> steps P s1 s2 \<Longrightarrow> steps P s s2"
  by (auto simp: steps_def)

lemma grows_refl: "grows P n s s"
  by (simp add: grows_def)

lemma grows_trans: "grows P n s s1 \<Longrightarrow> grows P n s1 s2 \<Longrightarrow> grows P n s s2"
  by (auto simp: grows_def)

lemma steps_grows: "steps P s s' \<Longrightarrow> grows P n s s'"
  by (auto simp: steps_def grows_def)

lemma steps_call: "call ev f s = (x, s') \<Longrightarrow> P ev \<Longrightarrow> steps P s s'"
  by (auto simp: steps_def call_def split: prod.splits)

lemma steps_call_snd: "P ev \<Longrightarrow> steps P s (snd (call ev f s))"
  by (cases "call ev f s") (auto intro: steps_call)

lemma steps_Wait: "do_Wait env keys s = (r, s') \<Longrightarrow> P (EvWait keys) \<Longrightarrow> steps P s s'"
  by (auto simp: steps_def do_Wait_def split: option.splits)

lemma steps_shellJobs:
  "shellJobs env vals jobs verbose s = (r, s') \<Longrightarrow> \<forall>a e. P (EvCommand a e) \<Longrightarrow> steps P s s'"
proof (induction jobs arbitrary: s)
  case Nil
  then show ?case by (simp add: steps_refl)
next
  case (Cons command jobs)
  show ?case
  proof (cases "Fields env command")
    case Nil
    with Cons.prems show ?thesis by (simp add: steps_refl)
  next
    case fs: (Cons arg0 args)
    obtain stdout err s1 where c:
      "call (EvCommand (arg0 # args) (vals @ Environ env (world s)))
            (Output env (arg0 # args) (vals @ Environ env (world s))) s = ((stdout, err), s1)"
      by (metis prod.exhaust)
    have s1: "steps P s s1" using steps_call [OF c] Cons.prems(2) by simp
    show ?thesis
    proof (cases err)
      case None
      with Cons.prems c fs have "shellJobs env vals jobs verbose s1 = (r, s')" by simp
      then have "steps P s1 s'" using Cons.IH Cons.prems(2) by blast
      with s1 show ?thesis by (rule steps_trans)
    next
      case (Some e)
      with Cons.prems c fs have "s' = s1" by simp
      with s1 show ?thesis by simp
    qed
  qed
qed

lemma shellJobs_runs_deferred:
  "shellJobs env vals jobs verbose s = (r, s') \<Longrightarrow> runs_deferred r"
  by (induction jobs arbitrary: s)
     (auto simp: runs_deferred_def split: list.splits prod.splits option.splits)

lemma steps_Generate:
  "Generate env name data out vals s = (r, s') \<Longrightarrow> \<forall>n. P (EvExecute n) \<Longrightarrow> steps P s s'"
  by (auto simp: Generate_def Let_def steps_refl split: option.splits prod.splits
           intro: steps_call)

lemma steps_render:
  "render env temps vals out s = (r, s') \<Longrightarrow>
   \<forall>n. P (EvExecute n) \<Longrightarrow> \<forall>n. P (EvReadFile n) \<Longrightarrow> steps P s s'"
proof (induction temps arbitrary: s out)
  case Nil
  then show ?case by (simp add: steps_refl)
next
  case (Cons temp temps)
  obtain data rd s1 where c: "call (EvReadFile temp) (ReadFile env temp) s = ((data, rd), s1)"
    by (metis prod.exhaust)
  have s1: "steps P s s1" using steps_call [OF c] Cons.prems(3) by simp
  show ?case
  proof (cases rd)
    case (Some e)
    with Cons.prems c have "s' = s1" by simp
    with s1 show ?thesis by simp
  next
    case None
    obtain g s2 where g: "Generate env temp data out vals s1 = (g, s2)" by (metis prod.exhaust)
    have s2: "steps P s1 s2" using steps_Generate [OF g] Cons.prems(2) by simp
    show ?thesis
    proof (cases g)
      case (Return out1)
      with Cons.prems c None g have "render env temps vals out1 s2 = (r, s')" by simp
      then have "steps P s2 s'" using Cons.IH Cons.prems(2,3) by blast
      with s1 s2 show ?thesis by (blast intro: steps_trans)
    next
      case (Abort a)
      with Cons.prems c None g have "s' = s2" by simp
      with s1 s2 show ?thesis by (blast intro: steps_trans)
    qed
  qed
qed

lemma steps_release_chart:
  assumes r: "release_chart env stage out s = (r, s')"
    and "\<forall>n. P (EvReleaseStatus n)" and "\<forall>n. P (EvDeleteRelease n)"
    and "\<forall>c b. P (EvInstallChart c b)" and "\<forall>c b. P (EvUpgradeChart c b)"
  shows "steps P s s'"
proof -
  let ?rel = "Release (chart stage)"
  let ?s1 = "snd (call (EvReleaseStatus ?rel) (ReleaseStatus env ?rel) s)"
  let ?s2 = "snd (call (EvDeleteRelease ?rel) (DeleteRelease env ?rel) ?s1)"
  let ?i2 = "snd (call (EvInstallChart (chart stage) out) (InstallChart env (chart stage) out) ?s2)"
  let ?i1 = "snd (call (EvInstallChart (chart stage) out) (InstallChart env (chart stage) out) ?s1)"
  let ?u1 = "snd (call (EvUpgradeChart (chart stage) out) (UpgradeChart env (chart stage) out) ?s1)"
  have 1: "steps P s ?s1" by (simp add: steps_call_snd assms)
  have 2: "steps P ?s1 ?s2" by (simp add: steps_call_snd assms)
  have i2: "steps P ?s2 ?i2" by (simp add: steps_call_snd assms)
  have i1: "steps P ?s1 ?i1" by (simp add: steps_call_snd assms)
  have u1: "steps P ?s1 ?u1" by (simp add: steps_call_snd assms)
  have "s' = ?i2 \<or> s' = ?i1 \<or> s' = ?u1"
    using r unfolding release_chart_def Let_def
    by (auto split: prod.splits if_splits)
  then show ?thesis
  proof (elim disjE)
    assume "s' = ?i2"
    then show ?thesis using steps_trans [OF steps_trans [OF 1 2] i2] by simp
  next
    assume "s' = ?i1"
    then show ?thesis using steps_trans [OF 1 i1] by simp
  next
    assume "s' = ?u1"
    then show ?thesis using steps_trans [OF 1 u1] by simp
  qed
qed

lemma grows_new_map:
  "on_maps (new_map es) s = (m, s') \<Longrightarrow> n \<le> length (maps s) \<Longrightarrow>
   grows P n s s' \<and> m = Some (length (maps s))"
  by (auto simp: on_maps_def new_map_def grows_def)

lemma fold_update_at_take:
  "n \<le> p \<Longrightarrow>
   take n (fold (\<lambda>(k, v) h'. h'[p := AList.update k v (h' ! p)]) es h1) = take n h1
   \<and> length (fold (\<lambda>(k, v) h'. h'[p := AList.update k v (h' ! p)]) es h1) = length h1"
  by (induction es arbitrary: h1) (auto split: prod.splits)

lemma grows_cpVals:
  "on_maps (cpVals main) s = (vals, s') \<Longrightarrow> n \<le> length (maps s) \<Longrightarrow>
   grows P n s s' \<and> vals = Some (length (maps s))"
  by (auto simp: on_maps_def cpVals_def Let_def grows_def fold_update_at_take)

lemma grows_MergeVals:
  "do_MergeVals (Some p) next s = (r, s') \<Longrightarrow> n \<le> p \<Longrightarrow> grows P n s s' \<and> r = Return ()"
  by (auto simp: do_MergeVals_def MergeVals_def MergeVals_loop_Some grows_def)

lemma steps_LoadFile:
  "LoadFile env vals s = (d, s') \<Longrightarrow> \<forall>x. P (EvReadFile x) \<Longrightarrow> steps P s s'"
  by (auto simp: LoadFile_def steps_refl split: if_splits prod.splits intro: steps_call)

lemma grows_LoadVals:
  assumes l: "LoadVals env vals data s = (m, s')"
    and n: "n \<le> length (maps s)" and P: "\<forall>x. P (EvReadFile x)"
  shows "grows P n s s'"
proof (cases "vals = []")
  case True
  with l show ?thesis by (simp add: LoadVals_def grows_refl)
next
  case False
  obtain data1 s1 where d: "(if data = None then LoadFile env vals s else (data, s)) = (data1, s1)"
    by (metis prod.exhaust)
  have 1: "steps P s s1"
    using d P by (auto split: if_splits intro: steps_LoadFile steps_refl)
  then have n1: "n \<le> length (maps s1)" using n by (simp add: steps_def)
  have "grows P n s1 s'"
    using l False d n1
    by (cases "on_maps (new_map []) s1")
       (auto simp: LoadVals_def split: sum.splits dest: grows_new_map)
  with 1 show ?thesis by (blast intro: grows_trans steps_grows)
qed

lemma resolve_values_grows:
  assumes r: "resolve_values env stage main s = (r, s')" and P: "\<forall>x. P (EvReadFile x)"
  shows "grows P (length (maps s)) s s' \<and> r = Return (Some (length (maps s)))"
proof -
  let ?n = "length (maps s)"
  obtain vals s1 where c: "on_maps (cpVals main) s = (vals, s1)" by (metis prod.exhaust)
  obtain loaded s2 where l: "LoadVals env (Values stage) None s1 = (loaded, s2)"
    by (metis prod.exhaust)
  obtain r3 s3 where m3: "do_MergeVals vals loaded s2 = (r3, s3)" by (metis prod.exhaust)
  obtain ns s4 where a4: "on_maps (new_map [(''namespace'', Namespace (chart stage))]) s3 = (ns, s4)"
    by (metis prod.exhaust)
  obtain r5 s5 where m5: "do_MergeVals vals ns s4 = (r5, s5)" by (metis prod.exhaust)
  obtain rel s6 where a6: "on_maps (new_map [(''release'', Release (chart stage))]) s5 = (rel, s6)"
    by (metis prod.exhaust)
  obtain r7 s7 where m7: "do_MergeVals vals rel s6 = (r7, s7)" by (metis prod.exhaust)
  have v: "vals = Some ?n" and g1: "grows P ?n s s1" using grows_cpVals [OF c, of ?n P] by simp_all
  have n1: "?n \<le> length (maps s1)" using g1 by (simp add: grows_def)
  have g2: "grows P ?n s1 s2" using grows_LoadVals [OF l n1 P] .
  have g3: "grows P ?n s2 s3" and r3: "r3 = Return ()"
    using grows_MergeVals [of ?n loaded s2 r3 s3 ?n P] m3 v by simp_all
  have n3: "?n \<le> length (maps s3)" using n1 g2 g3 by (simp add: grows_def)
  have g4: "grows P ?n s3 s4" using grows_new_map [OF a4 n3] by simp
  have g5: "grows P ?n s4 s5" and r5: "r5 = Return ()"
    using grows_MergeVals [of ?n ns s4 r5 s5 ?n P] m5 v by simp_all
  have n5: "?n \<le> length (maps s5)" using n3 g4 g5 by (simp add: grows_def)
  have g6: "grows P ?n s5 s6" using grows_new_map [OF a6 n5] by simp
  have g7: "grows P ?n s6 s7" and r7: "r7 = Return ()"
    using grows_MergeVals [of ?n rel s6 r7 s7 ?n P] m7 v by simp_all
  have res: "r = Return vals \<and> s' = s7"
    using r c l m3 a4 m5 a6 m7 r3 r5 r7 by (simp add: resolve_values_def and_then_def)
  have "grows P ?n s s7"
    using g1 g2 g3 g4 g5 g6 g7 by (blast intro: grows_trans)
  with res v show ?thesis by simp
qed

lemma and_then_cases:
  assumes "and_then m f = (r, s')"
  obtains (ret) v s1 where "m = (Return v, s1)" and "f v s1 = (r, s')"
        | (abort) a where "m = (Abort a, s')" and "r = Abort a"
  using assms by (cases m) (auto simp: and_then_def split: outcome.splits)

lemma deferred_cases:
  assumes "deferred cleanup body s = (r, s')"
  obtains (skipped) "body s = (r, s')" and "\<not> runs_deferred r"
        | (ran) s1 c where "body s = (r, s1)" and "runs_deferred r" and "cleanup s1 = (Return c, s')"
        | (failed) r1 s1 a where "body s = (r1, s1)" and "runs_deferred r1"
            and "cleanup s1 = (Abort a, s')" and "r = Abort a"
  using assms
  by (cases "body s")
     (auto simp: deferred_def split: if_splits prod.splits outcome.splits)

lemma grows_deferred:
  assumes d: "deferred cleanup body s = (r, s')"
    and b: "\<And>r1 s1. body s = (r1, s1) \<Longrightarrow> grows P n s s1"
    and c: "\<And>s1 c s2. cleanup s1 = (c, s2) \<Longrightarrow> grows P n s1 s2"
  shows "grows P n s s'"
  using d by (cases rule: deferred_cases) (blast intro: b c grows_trans)+

lemma Create_tail_steps:
  assumes t: "Create_tail env stage vals verbose s = (r, s')"
    and P: "\<forall>e. body_event e \<longrightarrow> P e"
  shows "steps P s s'"
  using t unfolding Create_tail_def
proof (cases rule: and_then_cases)
  case (ret out s1)
  have "steps P s s1" using steps_render [OF ret(1)] P by (simp add: body_event_def)
  moreover have "steps P s1 s'"
    using steps_release_chart [OF ret(2)] P by (simp add: body_event_def)
  ultimately show ?thesis by (rule steps_trans)
next
  case (abort a)
  then show ?thesis using steps_render [OF abort(1)] P by (simp add: body_event_def)
qed

lemma Create_body_grows:
  assumes b: "Create_body env stage main verbose s = (r, s')"
    and P: "\<forall>e. body_event e \<longrightarrow> P e"
  shows "grows P (length (maps s)) s s'"
proof -
  let ?n = "length (maps s)"
  let ?rel = "Release (chart stage)"
  have rf: "\<forall>x. P (EvReadFile x)" and wa: "\<forall>ks. P (EvWait ks)" and co: "\<forall>a e. P (EvCommand a e)"
    and st: "P (EvReleaseStatus ?rel)"
    using P by (simp_all add: body_event_def)
  obtain status err s1 where c: "call (EvReleaseStatus ?rel) (ReleaseStatus env ?rel) s = ((status, err), s1)"
    by (metis prod.exhaust)
  have 1: "steps P s s1" using c st by (rule steps_call)
  then have g1: "grows P ?n s s1" by (rule steps_grows)
  have m1: "maps s1 = maps s" using 1 by (simp add: steps_def)
  show ?thesis
  proof (cases "err = None \<and> Abandon stage")
    case True
    with b c have "s' = s1" by (simp add: Create_body_def)
    with g1 show ?thesis by simp
  next
    case False
    with b c have rest:
      "and_then (resolve_values env stage main s1) (\<lambda>vals s2.
              case checkRequires (maps s2) vals (Requires stage) of
                Some e \<Rightarrow> (Return (Some e), s2)
              | None \<Rightarrow>
                  and_then (do_Wait env (Depends stage) s2) (\<lambda>_ s3.
                    and_then (shellJobs env (shellVars (entries_of (maps s3) vals))
                                        (Before (Jobs stage)) verbose s3) (\<lambda>dropped s4.
                      deferred (shellJobs env (shellVars (entries_of (maps s4) vals))
                                          (After (Jobs stage)) verbose)
                               (Create_tail env stage vals verbose) s4))) = (r, s')"
      by (auto simp: Create_body_def)
    from rest show ?thesis
    proof (cases rule: and_then_cases)
      case (abort a)
      then have "grows P ?n s1 s'" using resolve_values_grows [OF abort(1) rf] m1 by simp
      with g1 show ?thesis by (rule grows_trans)
    next
      case (ret vals s2)
      have g2: "grows P ?n s1 s2" using resolve_values_grows [OF ret(1) rf] m1 by simp
      show ?thesis
      proof (cases "checkRequires (maps s2) vals (Requires stage)")
        case (Some e)
        with ret(2) have "s' = s2" by simp
        with g1 g2 show ?thesis by (blast intro: grows_trans)
      next
        case None
        with ret(2) have w: "and_then (do_Wait env (Depends stage) s2) (\<lambda>_ s3.
                    and_then (shellJobs env (shellVars (entries_of (maps s3) vals))
                                        (Before (Jobs stage)) verbose s3) (\<lambda>dropped s4.
                      deferred (shellJobs env (shellVars (entries_of (maps s4) vals))
                                          (After (Jobs stage)) verbose)
                               (Create_tail env stage vals verbose) s4)) = (r, s')" by simp
        from w show ?thesis
        proof (cases rule: and_then_cases)
          case (abort a)
          then have "steps P s2 s'" using steps_Wait [OF abort(1)] wa by simp
          with g1 g2 show ?thesis by (blast intro: grows_trans steps_grows)
        next
          case (ret u s3)
          have g3: "steps P s2 s3" using steps_Wait [OF ret(1)] wa by simp
          from ret(2) show ?thesis
          proof (cases rule: and_then_cases)
            case (abort a)
            then have "steps P s3 s'" using steps_shellJobs [OF abort(1) co] by simp
            with g1 g2 g3 show ?thesis by (blast intro: grows_trans steps_grows)
          next
            case (ret dropped s4)
            have g4: "steps P s3 s4" using steps_shellJobs [OF ret(1) co] .
            have "grows P ?n s4 s'"
              using ret(2)
            proof (rule grows_deferred)
              fix r1 sa
              assume "Create_tail env stage vals verbose s4 = (r1, sa)"
              then show "grows P ?n s4 sa"
                using Create_tail_steps P by (blast intro: steps_grows)
            next
              fix sa c sb
              assume "shellJobs env (shellVars (entries_of (maps s4) vals)) (After (Jobs stage)) verbose sa = (c, sb)"
              then show "grows P ?n sa sb" using steps_shellJobs co by (blast intro: steps_grows)
            qed
            with g1 g2 g3 g4 show ?thesis by (blast intro: grows_trans steps_grows)
          qed
        qed
      qed
    qed
  qed
qed

lemma events_since_append: "trace s' = trace s @ evs \<Longrightarrow> events_since s s' = evs"
  by (simp add: events_since_def)

lemma checkRequires_missing:
  "r \<in> set reqs \<Longrightarrow> lookup h vals r = None \<Longrightarrow>
   checkRequires h vals reqs = Some ''requirement not met''"
  by (induction reqs) auto

lemma checkRequires_error:
  "checkRequires h vals reqs = Some e \<Longrightarrow> e = ''requirement not met''"
  by (induction reqs) (auto split: if_splits)

lemma shellJobs_events:
  "shellJobs env vals jobs verbose s = (r, s') \<Longrightarrow> \<forall>a w. P (EvCommand a (vals @ Environ env w)) \<Longrightarrow>
   steps P s s'"
proof (induction jobs arbitrary: s)
  case Nil
  then show ?case by (simp add: steps_refl)
next
  case (Cons command jobs)
  show ?case
  proof (cases "Fields env command")
    case Nil
    with Cons.prems show ?thesis by (simp add: steps_refl)
  next
    case fs: (Cons arg0 args)
    obtain stdout err s1 where c:
      "call (EvCommand (arg0 # args) (vals @ Environ env (world s)))
            (Output env (arg0 # args) (vals @ Environ env (world s))) s = ((stdout, err), s1)"
      by (metis prod.exhaust)
    have s1: "steps P s s1" using c Cons.prems(2) by (auto intro: steps_call)
    show ?thesis
    proof (cases err)
      case None
      with Cons.prems c fs have "shellJobs env vals jobs verbose s1 = (r, s')" by simp
      then have "steps P s1 s'" using Cons.IH Cons.prems(2) by blast
      with s1 show ?thesis by (rule steps_trans)
    next
      case (Some e)
      with Cons.prems c fs have "s' = s1" by simp
      with s1 show ?thesis by simp
    qed
  qed
qed

section \<open>Claims\<close>

subsection \<open>C1\<close>

text \<open>
  C1, counterexample: with a template that fails to render, \<^verbatim>\<open>Generate\<close> ends the process
  through \<^verbatim>\<open>log.Fatalf\<close>; \<^verbatim>\<open>Create\<close> terminates there and \<^verbatim>\<open>Complete("api")\<close> is not among
  the calls it made.
\<close>

theorem Create_render_failure_skips_Complete:
  "fst (Create env_render_fails test_stage ''api'' (Some 0) False (test_state [])) = Abort Fatal
   \<and> trace (snd (Create env_render_fails test_stage ''api'' (Some 0) False (test_state [])))
       = [EvReleaseStatus ''api'', EvWait [''db''],
          EvCommand [''migrate'']
            ['''', '''', '''', ''env=prod'', ''namespace=default'', ''release=api'', ''HOME=/root''],
          EvReadFile ''api.yaml'', EvExecute ''api.yaml'']"
  by code_simp

text \<open>
  C1, as amended: whenever \<^verbatim>\<open>Create\<close> returns or panics, \<^verbatim>\<open>Complete(key)\<close> is its last
  call and its only call of \<^verbatim>\<open>Complete\<close>; when it ends the process (\<^verbatim>\<open>log.Fatalf\<close>) or
  never leaves \<^verbatim>\<open>Wait\<close>, it has made no call of \<^verbatim>\<open>Complete\<close>.
\<close>

theorem Create_completes_on_return_or_panic:
  "case Create env stage key main verbose s of
     (r, s') \<Rightarrow>
       \<exists>evs. list_all body_event evs \<and>
             trace s' = trace s @ evs @ (if runs_deferred r then [EvComplete [key]] else [])"
proof -
  obtain r s' where c: "Create env stage key main verbose s = (r, s')" by (metis prod.exhaust)
  have body: "\<exists>evs. trace s1 = trace s @ evs \<and> list_all body_event evs"
    if "Create_body env stage main verbose s = (r1, s1)" for r1 s1
    using Create_body_grows [OF that, of body_event] by (simp add: grows_def)
  from c [unfolded Create_def]
  have "\<exists>evs. list_all body_event evs \<and>
             trace s' = trace s @ evs @ (if runs_deferred r then [EvComplete [key]] else [])"
  proof (cases rule: deferred_cases)
    case skipped
    then show ?thesis using body by auto
  next
    case (ran s1 c)
    then show ?thesis using body [OF ran(1)] by (auto simp: do_Complete_def)
  next
    case (failed r1 s1 a)
    then show ?thesis by (simp add: do_Complete_def)
  qed
  with c show ?thesis by simp
qed

subsection \<open>C2\<close>

text \<open>
  C2: for a stage with \<^verbatim>\<open>abandon\<close> set whose status query succeeds, \<^verbatim>\<open>Create\<close> returns the
  error \<^verbatim>\<open>chart already installed\<close>, and the calls it makes are the status query and
  \<^verbatim>\<open>Complete(key)\<close>, so none of install, upgrade or delete.
\<close>

theorem Create_abandon_existing:
  assumes "Abandon stage"
    and "snd (fst (ReleaseStatus env (Release (chart stage)) (world s))) = None"
  shows "fst (Create env stage key main verbose s) = Return (Some ''chart already installed'')
       \<and> events_since s (snd (Create env stage key main verbose s))
           = [EvReleaseStatus (Release (chart stage)), EvComplete [key]]"
  using assms
  by (auto simp: Create_def Create_body_def deferred_def call_def runs_deferred_def
                 do_Complete_def events_since_def split: prod.splits)

text \<open>
  C2, witness: the stage \<^verbatim>\<open>api\<close> with \<^verbatim>\<open>abandon\<close> set, its release deployed.
\<close>

theorem Create_abandon_existing_witness:
  "Abandon (test_stage\<lparr>Abandon := True\<rparr>)
   \<and> snd (fst (ReleaseStatus test_env (Release (chart (test_stage\<lparr>Abandon := True\<rparr>)))
                 (world (test_state [(''api'', ''DEPLOYED'')])))) = None
   \<and> fst (Create test_env (test_stage\<lparr>Abandon := True\<rparr>) ''api'' (Some 0) False
             (test_state [(''api'', ''DEPLOYED'')]))
       = Return (Some ''chart already installed'')
   \<and> events_since (test_state [(''api'', ''DEPLOYED'')])
        (snd (Create test_env (test_stage\<lparr>Abandon := True\<rparr>) ''api'' (Some 0) False
                (test_state [(''api'', ''DEPLOYED'')])))
       = [EvReleaseStatus ''api'', EvComplete [''api'']]"
proof -
  have h1: "Abandon (test_stage\<lparr>Abandon := True\<rparr>)" by simp
  have h2: "snd (fst (ReleaseStatus test_env (Release (chart (test_stage\<lparr>Abandon := True\<rparr>)))
                 (world (test_state [(''api'', ''DEPLOYED'')])))) = None"
    by (simp add: test_env_def test_stage_def test_chart_def test_state_def)
  have r: "Release (chart (test_stage\<lparr>Abandon := True\<rparr>)) = ''api''"
    by (simp add: test_stage_def test_chart_def)
  show ?thesis
    using Create_abandon_existing [OF h1 h2, of "''api''" "Some 0" False] h1 h2 r by simp
qed

subsection \<open>C3\<close>

text \<open>
  C3, the code at a failing before-hook: \<^verbatim>\<open>shellJobs\<close> returns the error of the command
  \<^verbatim>\<open>migrate\<close>, and \<^verbatim>\<open>Create\<close> goes on to read and render the template, installs the
  chart and returns nil.
\<close>

theorem Create_ignores_failed_before_hook:
  "shellJobs env_hook_fails [] (Before (Jobs test_stage)) False (test_state [])
     = (Return (Some ''exit status 1''),
        \<lparr>world = [], maps = [[(''env'', ''prod'')]], trace = [EvCommand [''migrate''] [''HOME=/root'']]\<rparr>)
   \<and> fst (Create env_hook_fails test_stage ''api'' (Some 0) False (test_state [])) = Return None
   \<and> trace (snd (Create env_hook_fails test_stage ''api'' (Some 0) False (test_state [])))
       = [EvReleaseStatus ''api'', EvWait [''db''],
          EvCommand [''migrate'']
            ['''', '''', '''', ''env=prod'', ''namespace=default'', ''release=api'', ''HOME=/root''],
          EvReadFile ''api.yaml'', EvExecute ''api.yaml'',
          EvReleaseStatus ''api'', EvInstallChart test_chart (Some ''kind: Pod''),
          EvCommand [''notify'']
            ['''', '''', '''', ''env=prod'', ''namespace=default'', ''release=api'', ''HOME=/root''],
          EvComplete [''api'']]"
  by code_simp

subsection \<open>C4\<close>

text \<open>
  C4, the code at a failing upgrade: the release is deployed, \<^verbatim>\<open>UpgradeChart\<close> returns an
  error, and \<^verbatim>\<open>Create\<close> returns nil after running the after-hooks.
\<close>

theorem Create_reports_success_on_failed_upgrade:
  "fst (UpgradeChart env_upgrade_fails test_chart (Some ''kind: Pod'') [(''api'', ''DEPLOYED'')])
     = Some ''upgrade failed''
   \<and> fst (Create env_upgrade_fails test_stage ''api'' (Some 0) False
             (test_state [(''api'', ''DEPLOYED'')])) = Return None
   \<and> trace (snd (Create env_upgrade_fails test_stage ''api'' (Some 0) False
                   (test_state [(''api'', ''DEPLOYED'')])))
       = [EvReleaseStatus ''api'', EvWait [''db''],
          EvCommand [''migrate'']
            ['''', '''', '''', ''env=prod'', ''namespace=default'', ''release=api'', ''HOME=/root''],
          EvReadFile ''api.yaml'', EvExecute ''api.yaml'',
          EvReleaseStatus ''api'', EvUpgradeChart test_chart (Some ''kind: Pod''),
          EvCommand [''notify'']
            ['''', '''', '''', ''env=prod'', ''namespace=default'', ''release=api'', ''HOME=/root''],
          EvComplete [''api'']]"
  by code_simp

subsection \<open>C5\<close>

text \<open>
  C5: when a name in \<^verbatim>\<open>requires\<close> is absent from the effective values, \<^verbatim>\<open>Create\<close>
  returns an error and none of the calls it made is a \<^verbatim>\<open>Wait\<close>.
\<close>

theorem Create_requires_before_wait:
  assumes req: "r \<in> set (Requires stage)"
    and miss: "effective_values env stage main
                 (snd (call (EvReleaseStatus (Release (chart stage)))
                            (ReleaseStatus env (Release (chart stage))) s)) r = None"
  shows "(\<exists>e. fst (Create env stage key main verbose s) = Return (Some e))
       \<and> list_all (\<lambda>e. \<forall>ks. e \<noteq> EvWait ks)
           (events_since s (snd (Create env stage key main verbose s)))"
proof -
  let ?rel = "Release (chart stage)"
  let ?P = "\<lambda>e. \<forall>ks. e \<noteq> EvWait ks"
  obtain status err s1 where c:
    "call (EvReleaseStatus ?rel) (ReleaseStatus env ?rel) s = ((status, err), s1)"
    by (metis prod.exhaust)
  have t1: "trace s1 = trace s @ [EvReleaseStatus ?rel]"
    using c by (auto simp: call_def split: prod.splits)
  show ?thesis
  proof (cases "err = None \<and> Abandon stage")
    case True
    then show ?thesis
      using c t1
      by (simp add: Create_def Create_body_def deferred_def runs_deferred_def do_Complete_def
                    events_since_def)
  next
    case False
    obtain rv s2 where rv: "resolve_values env stage main s1 = (rv, s2)" by (metis prod.exhaust)
    have g: "grows ?P (length (maps s1)) s1 s2" and v: "rv = Return (Some (length (maps s1)))"
      using resolve_values_grows [OF rv, of ?P] by simp_all
    have "lookup (maps s2) (Some (length (maps s1))) r = None"
      using miss c rv v by (simp add: effective_values_def)
    then have cr: "checkRequires (maps s2) (Some (length (maps s1))) (Requires stage)
                     = Some ''requirement not met''"
      using req by (rule checkRequires_missing [rotated])
    have b: "Create_body env stage main verbose s = (Return (Some ''requirement not met''), s2)"
      using False c rv v cr by (auto simp: Create_body_def and_then_def)
    obtain evs where evs: "trace s2 = trace s1 @ evs" "list_all ?P evs"
      using g by (auto simp: grows_def)
    show ?thesis
      using b evs t1
      by (simp add: Create_def deferred_def runs_deferred_def do_Complete_def events_since_def)
  qed
qed

text \<open>
  C5, witness: \<^verbatim>\<open>requires = ["license"]\<close> over the base values \<^verbatim>\<open>{env: prod}\<close>.
\<close>

theorem Create_requires_before_wait_witness:
  "''license'' \<in> set (Requires (test_stage\<lparr>Requires := [''license'']\<rparr>))
   \<and> effective_values test_env (test_stage\<lparr>Requires := [''license'']\<rparr>) (Some 0)
        (snd (call (EvReleaseStatus ''api'') (ReleaseStatus test_env ''api'') (test_state [])))
        ''license'' = None
   \<and> fst (Create test_env (test_stage\<lparr>Requires := [''license'']\<rparr>) ''api'' (Some 0) False
             (test_state [])) = Return (Some ''requirement not met'')
   \<and> list_all (\<lambda>e. \<forall>ks. e \<noteq> EvWait ks)
        (events_since (test_state [])
           (snd (Create test_env (test_stage\<lparr>Requires := [''license'']\<rparr>) ''api'' (Some 0) False
                   (test_state []))))"
proof -
  let ?st = "test_stage\<lparr>Requires := [''license'']\<rparr>"
  have r: "Release (chart ?st) = ''api''" by (simp add: test_stage_def test_chart_def)
  have h1: "''license'' \<in> set (Requires ?st)" by simp
  have h2: "effective_values test_env ?st (Some 0)
        (snd (call (EvReleaseStatus (Release (chart ?st))) (ReleaseStatus test_env (Release (chart ?st)))
                (test_state []))) ''license'' = None"
    by code_simp
  have e: "fst (Create test_env ?st ''api'' (Some 0) False (test_state []))
             = Return (Some ''requirement not met'')"
    by code_simp
  show ?thesis
    using Create_requires_before_wait [OF h1 h2, of "''api''" False] h1 h2 e r by simp
qed

subsection \<open>C6\<close>

text \<open>
  C6: when a requirement is unmet, \<^verbatim>\<open>Destroy\<close> returns the requirement error and its only
  call signals \<^verbatim>\<open>stage.depends\<close>. When the requirements are met it waits on its own key:
  if that wait never returns, nothing follows it; if it returns, \<^verbatim>\<open>Destroy\<close> then deletes
  the release, then signals \<^verbatim>\<open>stage.depends\<close>, and returns what the delete returned,
  error or not.
\<close>

theorem Destroy_waits_then_signals:
  "case Destroy env stage key vals verbose s of
     (r, s') \<Rightarrow>
       (checkRequires (maps s) vals (Requires stage) \<noteq> None \<longrightarrow>
          r = Return (Some ''requirement not met'')
          \<and> events_since s s' = [EvComplete (Depends stage)])
     \<and> (checkRequires (maps s) vals (Requires stage) = None
          \<and> Wait env [key] (world s) = None \<longrightarrow>
          r = Abort Blocked \<and> events_since s s' = [EvWait [key]])
     \<and> (\<forall>w. checkRequires (maps s) vals (Requires stage) = None
              \<and> Wait env [key] (world s) = Some w \<longrightarrow>
          r = Return (fst (DeleteRelease env (Release (chart stage)) w))
          \<and> world s' = Complete env (Depends stage)
                          (snd (DeleteRelease env (Release (chart stage)) w))
          \<and> events_since s s' = [EvWait [key], EvDeleteRelease (Release (chart stage)),
                                  EvComplete (Depends stage)])"
proof (cases "checkRequires (maps s) vals (Requires stage)")
  case (Some e)
  then show ?thesis
    using checkRequires_error [OF Some]
    by (simp add: Destroy_def Destroy_body_def deferred_def runs_deferred_def do_Complete_def
                  events_since_def)
next
  case None
  then show ?thesis
    by (cases "Wait env [key] (world s)")
       (auto simp: Destroy_def Destroy_body_def deferred_def runs_deferred_def do_Complete_def
                  events_since_def do_Wait_def and_then_def call_def split: prod.splits)
qed

text \<open>
  C6, witness: an unmet requirement, a wait that never returns, a delete that succeeds
  and a delete that fails, each on the deployed release \<^verbatim>\<open>api\<close> depending on \<^verbatim>\<open>db\<close>.
\<close>

theorem Destroy_waits_then_signals_witness:
  "checkRequires (maps (test_state [(''api'', ''DEPLOYED'')])) (Some 0)
     (Requires (test_stage\<lparr>Requires := [''license'']\<rparr>)) \<noteq> None
   \<and> fst (Destroy test_env (test_stage\<lparr>Requires := [''license'']\<rparr>) ''api'' (Some 0) False
             (test_state [(''api'', ''DEPLOYED'')]))
       = Return (Some ''requirement not met'')
   \<and> events_since (test_state [(''api'', ''DEPLOYED'')])
        (snd (Destroy test_env (test_stage\<lparr>Requires := [''license'']\<rparr>) ''api'' (Some 0) False
                (test_state [(''api'', ''DEPLOYED'')])))
       = [EvComplete [''db'']]
   \<and> checkRequires (maps (test_state [(''api'', ''DEPLOYED'')])) (Some 0) (Requires test_stage) = None
   \<and> Wait env_wait_blocks [''api''] (world (test_state [(''api'', ''DEPLOYED'')])) = None
   \<and> fst (Destroy env_wait_blocks test_stage ''api'' (Some 0) False
             (test_state [(''api'', ''DEPLOYED'')])) = Abort Blocked
   \<and> events_since (test_state [(''api'', ''DEPLOYED'')])
        (snd (Destroy env_wait_blocks test_stage ''api'' (Some 0) False
                (test_state [(''api'', ''DEPLOYED'')])))
       = [EvWait [''api'']]
   \<and> Wait test_env [''api''] (world (test_state [(''api'', ''DEPLOYED'')]))
       = Some [(''api'', ''DEPLOYED'')]
   \<and> fst (Destroy test_env test_stage ''api'' (Some 0) False
             (test_state [(''api'', ''DEPLOYED'')])) = Return None
   \<and> world (snd (Destroy test_env test_stage ''api'' (Some 0) False
                    (test_state [(''api'', ''DEPLOYED'')]))) = []
   \<and> events_since (test_state [(''api'', ''DEPLOYED'')])
        (snd (Destroy test_env test_stage ''api'' (Some 0) False
                (test_state [(''api'', ''DEPLOYED'')])))
       = [EvWait [''api''], EvDeleteRelease ''api'', EvComplete [''db'']]
   \<and> Wait env_delete_fails [''api''] (world (test_state [(''api'', ''DEPLOYED'')]))
       = Some [(''api'', ''DEPLOYED'')]
   \<and> fst (Destroy env_delete_fails test_stage ''api'' (Some 0) False
             (test_state [(''api'', ''DEPLOYED'')])) = Return (Some ''delete failed'')
   \<and> events_since (test_state [(''api'', ''DEPLOYED'')])
        (snd (Destroy env_delete_fails test_stage ''api'' (Some 0) False
                (test_state [(''api'', ''DEPLOYED'')])))
       = [EvWait [''api''], EvDeleteRelease ''api'', EvComplete [''db'']]"
proof -
  let ?s = "test_state [(''api'', ''DEPLOYED'')]"
  let ?lic = "test_stage\<lparr>Requires := [''license'']\<rparr>"
  have c: "chart test_stage = test_chart" "Release test_chart = ''api''"
          "Depends test_stage = [''db'']" "chart ?lic = test_chart" "Depends ?lic = [''db'']"
    by (simp_all add: test_stage_def test_chart_def)
  have a: "checkRequires (maps ?s) (Some 0) (Requires ?lic) \<noteq> None"
    by (simp add: test_state_def lookup_def entries_of_def)
  have b: "checkRequires (maps ?s) (Some 0) (Requires test_stage) = None"
    by (simp add: test_state_def test_stage_def)
  have w1: "Wait env_wait_blocks [''api''] (world ?s) = None"
    by (simp add: env_wait_blocks_def test_env_def)
  have w2: "Wait test_env [''api''] (world ?s) = Some [(''api'', ''DEPLOYED'')]"
    by (simp add: test_env_def test_state_def)
  have w3: "Wait env_delete_fails [''api''] (world ?s) = Some [(''api'', ''DEPLOYED'')]"
    by (simp add: env_delete_fails_def test_env_def test_state_def)
  have d2: "DeleteRelease test_env ''api'' [(''api'', ''DEPLOYED'')] = (None, [])"
    by (simp add: test_env_def)
  have d3: "DeleteRelease env_delete_fails ''api'' [(''api'', ''DEPLOYED'')]
              = (Some ''delete failed'', [(''api'', ''DEPLOYED'')])"
    by (simp add: env_delete_fails_def test_env_def)
  have k2: "Complete test_env [''db''] [] = []" by (simp add: test_env_def)
  show ?thesis
    using Destroy_waits_then_signals [where env = test_env and stage = "?lic" and key = "''api''" and vals = "Some 0" and verbose = False and s = ?s]
          Destroy_waits_then_signals [where env = env_wait_blocks and stage = "test_stage" and key = "''api''" and vals = "Some 0" and verbose = False and s = ?s]
          Destroy_waits_then_signals [where env = test_env and stage = "test_stage" and key = "''api''" and vals = "Some 0" and verbose = False and s = ?s]
          Destroy_waits_then_signals [where env = env_delete_fails and stage = "test_stage" and key = "''api''" and vals = "Some 0" and verbose = False and s = ?s]
          a b w1 w2 w3
    by (simp add: split_beta c d2 d3 k2)
qed

subsection \<open>C7\<close>

text \<open>
  C7: after the second status query \<^verbatim>\<open>Create\<close> installs without deleting when the query
  failed, deletes and then installs when the status is \<^verbatim>\<open>PENDING_INSTALL\<close>, and
  upgrades otherwise.
\<close>

theorem release_chart_decision:
  assumes "ReleaseStatus env (Release (chart stage)) (world s) = ((status, err), w)"
  shows "events_since s (snd (release_chart env stage out s)) =
           EvReleaseStatus (Release (chart stage)) #
           (if err \<noteq> None then [EvInstallChart (chart stage) out]
            else if status = ''PENDING_INSTALL''
                 then [EvDeleteRelease (Release (chart stage)), EvInstallChart (chart stage) out]
                 else [EvUpgradeChart (chart stage) out])"
  using assms
  by (auto simp: release_chart_def call_def events_since_def Let_def split: prod.splits)

text \<open>
  C7, witness: a release pending installation, no release, a deployed release.
\<close>

theorem release_chart_decision_witness:
  "ReleaseStatus test_env (Release (chart test_stage)) (world (test_state [(''api'', ''PENDING_INSTALL'')]))
     = ((''PENDING_INSTALL'', None), [(''api'', ''PENDING_INSTALL'')])
   \<and> events_since (test_state [(''api'', ''PENDING_INSTALL'')])
        (snd (release_chart test_env test_stage None (test_state [(''api'', ''PENDING_INSTALL'')])))
       = [EvReleaseStatus ''api'', EvDeleteRelease ''api'', EvInstallChart test_chart None]
   \<and> ReleaseStatus test_env (Release (chart test_stage)) (world (test_state []))
     = (('''', Some ''release not found''), [])
   \<and> events_since (test_state []) (snd (release_chart test_env test_stage None (test_state [])))
       = [EvReleaseStatus ''api'', EvInstallChart test_chart None]
   \<and> ReleaseStatus test_env (Release (chart test_stage)) (world (test_state [(''api'', ''DEPLOYED'')]))
     = ((''DEPLOYED'', None), [(''api'', ''DEPLOYED'')])
   \<and> events_since (test_state [(''api'', ''DEPLOYED'')])
        (snd (release_chart test_env test_stage None (test_state [(''api'', ''DEPLOYED'')])))
       = [EvReleaseStatus ''api'', EvUpgradeChart test_chart None]"
proof -
  have c: "chart test_stage = test_chart" "Release test_chart = ''api''"
    by (simp_all add: test_stage_def test_chart_def)
  have h1: "ReleaseStatus test_env (Release (chart test_stage)) (world (test_state [(''api'', ''PENDING_INSTALL'')]))
     = ((''PENDING_INSTALL'', None), [(''api'', ''PENDING_INSTALL'')])"
    by (simp add: test_env_def test_state_def c)
  have h2: "ReleaseStatus test_env (Release (chart test_stage)) (world (test_state []))
     = (('''', Some ''release not found''), [])"
    by (simp add: test_env_def test_state_def c)
  have h3: "ReleaseStatus test_env (Release (chart test_stage)) (world (test_state [(''api'', ''DEPLOYED'')]))
     = ((''DEPLOYED'', None), [(''api'', ''DEPLOYED'')])"
    by (simp add: test_env_def test_state_def c)
  show ?thesis
    using release_chart_decision [OF h1, of None] release_chart_decision [OF h2, of None]
          release_chart_decision [OF h3, of None] h1 h2 h3
    by (simp add: c)
qed

subsection \<open>C8\<close>

text \<open>
  C8: every map that exists when \<^verbatim>\<open>Create\<close> is called, the base values among them, has
  the same content when \<^verbatim>\<open>Create\<close> is left; the effective values are built in a map
  that \<^verbatim>\<open>Create\<close> allocates.
\<close>

theorem Create_leaves_base_unchanged:
  "take (length (maps s)) (maps (snd (Create env stage key main verbose s))) = maps s
   \<and> fst (resolve_values env stage main s) = Return (Some (length (maps s)))"
proof -
  obtain r s' where c: "Create env stage key main verbose s = (r, s')" by (metis prod.exhaust)
  have body: "take (length (maps s)) (maps s1) = maps s"
    if "Create_body env stage main verbose s = (r1, s1)" for r1 s1
    using Create_body_grows [OF that, of "\<lambda>e. True"] by (simp add: grows_def)
  from c [unfolded Create_def]
  have "take (length (maps s)) (maps s') = maps s"
  proof (cases rule: deferred_cases)
    case skipped
    then show ?thesis using body by auto
  next
    case (ran s1 c)
    then show ?thesis using body [OF ran(1)] by (auto simp: do_Complete_def)
  next
    case (failed r1 s1 a)
    then show ?thesis by (simp add: do_Complete_def)
  qed
  moreover have "fst (resolve_values env stage main s) = Return (Some (length (maps s)))"
    using resolve_values_grows [of env stage main s _ _ "\<lambda>e. True"]
    by (cases "resolve_values env stage main s") simp
  ultimately show ?thesis using c by simp
qed

subsection \<open>C9\<close>

text \<open>
  C9: \<^verbatim>\<open>MergeVals(prev, next)\<close> on an allocated \<open>prev\<close> succeeds; afterwards \<open>prev\<close> holds
  every pair of \<open>next\<close> and keeps, unchanged, each of its keys that \<open>next\<close> lacks; no other
  map changes. In particular merging \<^verbatim>\<open>{b:3,c:4}\<close> into \<^verbatim>\<open>{a:1,b:2}\<close> leaves
  \<^verbatim>\<open>{a:1,b:3,c:4}\<close>.
\<close>

theorem MergeVals_right_wins:
  assumes "wf_store h" and "p < length h" and "allocated h next"
  shows "(\<exists>h'. MergeVals (Some p) next h = Some h' \<and> length h' = length h
           \<and> (\<forall>k v. lookup h next k = Some v \<longrightarrow> lookup h' (Some p) k = Some v)
           \<and> (\<forall>k. lookup h next k = None \<longrightarrow> lookup h' (Some p) k = lookup h (Some p) k)
           \<and> (\<forall>r. r \<noteq> p \<longrightarrow> h' ! r = h ! r))
       \<and> MergeVals (Some 0) (Some 1)
            [[(''a'', ''1''), (''b'', ''2'')], [(''b'', ''3''), (''c'', ''4'')]]
          = Some [[(''a'', ''1''), (''b'', ''3''), (''c'', ''4'')], [(''b'', ''3''), (''c'', ''4'')]]"
proof -
  have d: "distinct (map fst (entries_of h next))"
    using assms(1,3)
    by (auto simp: wf_store_def allocated_def entries_of_def list_all_length split: option.splits)
  let ?h' = "h[p := fold (\<lambda>(k, v). AList.update k v) (entries_of h next) (h ! p)]"
  have m: "map_of (?h' ! p) = map_of (h ! p) ++ map_of (entries_of h next)"
    using assms(2) d by (simp add: fold_update_map_of map_of_rev_distinct)
  have "MergeVals (Some p) next h = Some ?h'" by (rule MergeVals_Some_eq)
  moreover have "length ?h' = length h" by simp
  moreover have "\<forall>k v. lookup h next k = Some v \<longrightarrow> lookup ?h' (Some p) k = Some v"
    using m by (simp add: lookup_def entries_of_def map_add_def)
  moreover have "\<forall>k. lookup h next k = None \<longrightarrow> lookup ?h' (Some p) k = lookup h (Some p) k"
    using m by (simp add: lookup_def entries_of_def map_add_def)
  moreover have "\<forall>r. r \<noteq> p \<longrightarrow> ?h' ! r = h ! r" by simp
  moreover have "MergeVals (Some 0) (Some 1)
            [[(''a'', ''1''), (''b'', ''2'')], [(''b'', ''3''), (''c'', ''4'')]]
          = Some [[(''a'', ''1''), (''b'', ''3''), (''c'', ''4'')], [(''b'', ''3''), (''c'', ''4'')]]"
    by (simp add: MergeVals_def entries_of_def assign_def)
  ultimately show ?thesis by blast
qed

text \<open>
  C9, witness: the store holding \<^verbatim>\<open>{a:1,b:2}\<close> and \<^verbatim>\<open>{b:3,c:4}\<close>.
\<close>

theorem MergeVals_right_wins_witness:
  "wf_store [[(''a'', ''1''), (''b'', ''2'')], [(''b'', ''3''), (''c'', ''4'')]]
   \<and> 0 < length [[(''a'', ''1''), (''b'', ''2'')], [(''b'', ''3''), (''c'', ''4'')]]
   \<and> allocated [[(''a'', ''1''), (''b'', ''2'')], [(''b'', ''3''), (''c'', ''4'')]] (Some 1)
   \<and> lookup (the (MergeVals (Some 0) (Some 1)
                    [[(''a'', ''1''), (''b'', ''2'')], [(''b'', ''3''), (''c'', ''4'')]])) (Some 0) ''a''
       = Some ''1''
   \<and> lookup (the (MergeVals (Some 0) (Some 1)
                    [[(''a'', ''1''), (''b'', ''2'')], [(''b'', ''3''), (''c'', ''4'')]])) (Some 0) ''b''
       = Some ''3''
   \<and> lookup (the (MergeVals (Some 0) (Some 1)
                    [[(''a'', ''1''), (''b'', ''2'')], [(''b'', ''3''), (''c'', ''4'')]])) (Some 0) ''c''
       = Some ''4''"
proof -
  let ?h = "[[(''a'', ''1''), (''b'', ''2'')], [(''b'', ''3''), (''c'', ''4'')]]"
  have h1: "wf_store ?h" by (simp add: wf_store_def)
  have h2: "0 < length ?h" by simp
  have h3: "allocated ?h (Some 1)" by (simp add: allocated_def)
  from MergeVals_right_wins [OF h1 h2 h3]
  obtain h' where m: "MergeVals (Some 0) (Some 1) ?h = Some h'"
    and a: "\<forall>k v. lookup ?h (Some 1) k = Some v \<longrightarrow> lookup h' (Some 0) k = Some v"
    and b: "\<forall>k. lookup ?h (Some 1) k = None \<longrightarrow> lookup h' (Some 0) k = lookup ?h (Some 0) k"
    by blast
  have "lookup ?h (Some 1) ''a'' = None" "lookup ?h (Some 0) ''a'' = Some ''1''"
       "lookup ?h (Some 1) ''b'' = Some ''3''" "lookup ?h (Some 1) ''c'' = Some ''4''"
    by (simp_all add: lookup_def entries_of_def)
  then have "lookup h' (Some 0) ''a'' = Some ''1''" "lookup h' (Some 0) ''b'' = Some ''3''"
            "lookup h' (Some 0) ''c'' = Some ''4''"
    using a b by simp_all
  then show ?thesis using h1 h2 h3 m by simp
qed

subsection \<open>C10\<close>

text \<open>
  C10: for a map of \<open>n\<close> entries \<^verbatim>\<open>shellVars\<close> returns \<open>2n\<close> strings, \<open>n\<close> empty ones
  followed by the \<open>n\<close> strings \<^verbatim>\<open>key=value\<close>; every command \<^verbatim>\<open>shellJobs\<close> runs with that
  list has an environment that begins with the \<open>n\<close> empty strings.
\<close>

theorem shellVars_padding:
  "length (shellVars vals) = 2 * length vals
   \<and> take (length vals) (shellVars vals) = replicate (length vals) ''''
   \<and> drop (length vals) (shellVars vals) = map (\<lambda>(key, val). key @ ''='' @ val) vals
   \<and> list_all (\<lambda>e. \<exists>args cenv. e = EvCommand args cenv
                     \<and> take (length vals) cenv = replicate (length vals) '''')
       (events_since s (snd (shellJobs env (shellVars vals) jobs verbose s)))"
proof -
  let ?P = "\<lambda>e. \<exists>args cenv. e = EvCommand args cenv
                     \<and> take (length vals) cenv = replicate (length vals) ''''"
  obtain r s' where j: "shellJobs env (shellVars vals) jobs verbose s = (r, s')"
    by (metis prod.exhaust)
  have "steps ?P s s'"
    using j by (rule shellJobs_events) (simp add: shellVars_eq)
  then have "list_all ?P (events_since s s')"
    by (auto simp: steps_def events_since_def)
  with j show ?thesis by (simp add: shellVars_eq)
qed

end
